theory Spec2Isabelle
  imports Main "HOL-Library.Multiset" "HOL-Library.Sublist"
begin

section \<open>Errors and Python list primitives\<close>

text \<open>
  The exceptions that \<open>random_word.py\<close> can raise. \<open>ValueError\<close> and
  \<open>NoWordsToChoseFrom\<close> carry their message; \<open>IndexError\<close> is what list indexing
  and \<open>random.choice\<close> raise; \<open>ReError\<close> is \<open>re.error\<close>, raised by
  \<open>re.fullmatch\<close> on a pattern that does not compile. The \<open>TypeError\<close> branches of
  \<open>_validate_lengths\<close> are excluded by the types of the model (a bound is an
  \<open>int option\<close>).
\<close>

datatype error =
    ValueError string
  | NoWordsToChoseFrom string
  | IndexError
  | ReError

text \<open>\<open>xs[i]\<close>: a negative index counts from the end, out of range raises.\<close>

definition py_getitem :: "'a list \<Rightarrow> int \<Rightarrow> error + 'a" where
  "py_getitem xs i =
     (let n = int (length xs); j = (if i < 0 then i + n else i)
      in if 0 \<le> j \<and> j < n then Inr (xs ! nat j) else Inl IndexError)"

text \<open>\<open>xs[lo:hi]\<close> with \<open>hi\<close> possibly \<open>None\<close>: indices are clamped, never an error.\<close>

definition py_slice :: "'a list \<Rightarrow> int \<Rightarrow> int option \<Rightarrow> 'a list" where
  "py_slice xs lo hi =
     (let n = int (length xs);
          clamp = (\<lambda>i. if i < 0 then max 0 (i + n) else min i n);
          l = clamp lo;
          h = (case hi of None \<Rightarrow> n | Some j \<Rightarrow> clamp j)
      in drop (nat l) (take (nat h) xs))"

section \<open>Length bounds\<close>

text \<open>\<open>RandomWord._validate_lengths\<close>: the check of the pair comes first, the
  normalisation of negative bounds after it.\<close>

definition validate_lengths :: "int option \<Rightarrow> int option \<Rightarrow> error + (int option \<times> int option)" where
  "validate_lengths word_min_length word_max_length =
     (if word_min_length \<noteq> None \<and> word_max_length \<noteq> None
         \<and> the word_min_length > the word_max_length \<and> the word_max_length \<noteq> 0
      then Inl (ValueError ''word_min_length cannot be greater than word_max_length'')
      else
        let word_min_length =
              (if word_min_length \<noteq> None \<and> the word_min_length < 0 then None else word_min_length);
            word_max_length =
              (if word_max_length \<noteq> None \<and> the word_max_length < 0 then None else word_max_length)
        in Inr (word_min_length, word_max_length))"

text \<open>\<open>RandomWord._bisect_by_length\<close>: the \<open>while left <= right\<close> loop, with
  \<open>left\<close> and \<open>right\<close> Python integers (\<open>right\<close> starts at \<open>len(words) - 1\<close>, which
  is \<open>-1\<close> on the empty list).\<close>

function bisect_loop :: "string list \<Rightarrow> int \<Rightarrow> int \<Rightarrow> int \<Rightarrow> error + int" where
  "bisect_loop words target_length left right =
     (if left \<le> right then
        (let middle = left + (right - left) div 2 in
         case py_getitem words middle of
           Inl e \<Rightarrow> Inl e
         | Inr w \<Rightarrow>
             if int (length w) < target_length
             then bisect_loop words target_length (middle + 1) right
             else bisect_loop words target_length left (middle - 1))
      else Inr left)"
  by pat_completeness auto
termination
  by (relation "measure (\<lambda>(words, target_length, left, right). nat (right - left + 1))") auto

definition bisect_by_length :: "string list \<Rightarrow> int \<Rightarrow> error + int" where
  "bisect_by_length words target_length =
     bisect_loop words target_length 0 (int (length words) - 1)"

text \<open>\<open>RandomWord._get_words_of_length\<close>.\<close>

definition get_words_of_length :: "string list \<Rightarrow> int option \<Rightarrow> int option \<Rightarrow> error + string list" where
  "get_words_of_length word_list min_length max_length =
     (case (case min_length of None \<Rightarrow> Inr 0
                             | Some m \<Rightarrow> bisect_by_length word_list m) of
        Inl e \<Rightarrow> Inl e
      | Inr left_index \<Rightarrow>
          (case (case max_length of None \<Rightarrow> Inr None
                                  | Some m \<Rightarrow> map_sum id Some (bisect_by_length word_list (m + 1))) of
             Inl e \<Rightarrow> Inl e
           | Inr right_index \<Rightarrow> Inr (py_slice word_list left_index right_index)))"

text \<open>What the length slice is meant to select: the words whose length lies within the
  bounds, an absent bound being no bound.\<close>

definition length_within :: "int option \<Rightarrow> int option \<Rightarrow> string \<Rightarrow> bool" where
  "length_within min_length max_length w =
     ((case min_length of None \<Rightarrow> True | Some m \<Rightarrow> m \<le> int (length w)) \<and>
      (case max_length of None \<Rightarrow> True | Some m \<Rightarrow> int (length w) \<le> m))"

section \<open>Python sets and dicts\<close>

text \<open>
  A Python \<open>set\<close> of words is modelled as a duplicate-free list. The iteration order of
  a Python set is unspecified; the model fixes one, and every statement about the result
  of \<open>filter\<close> is made about the \<open>set\<close> of the list, so that none depends on the order.
  \<open>set_update s xs\<close> is \<open>s.update(xs)\<close>, \<open>set_inter s t\<close> is \<open>s & t\<close> and
  \<open>set_minus s t\<close> is \<open>s -= t\<close>.
\<close>

definition set_update :: "'a list \<Rightarrow> 'a list \<Rightarrow> 'a list" where
  "set_update s xs = List.union xs s"

definition set_inter :: "'a list \<Rightarrow> 'a list \<Rightarrow> 'a list" where
  "set_inter s t = filter (\<lambda>x. x \<in> set t) s"

definition set_minus :: "'a list \<Rightarrow> 'a list \<Rightarrow> 'a list" where
  "set_minus s t = filter (\<lambda>x. x \<notin> set t) s"

text \<open>A \<open>dict\<close> keeps its keys in insertion order: \<open>d[k] = v\<close> replaces the value of
  a key that is present and appends a key that is not.\<close>

fun dict_set :: "'k \<Rightarrow> 'v \<Rightarrow> ('k \<times> 'v) list \<Rightarrow> ('k \<times> 'v) list" where
  "dict_set k v [] = [(k, v)]"
| "dict_set k v ((k', v') # d) = (if k' = k then (k, v) # d else (k', v') # dict_set k v d)"

section \<open>The prefix index\<close>

text \<open>
  Modelled from the spec: the module \<open>_trie\<close> (class \<open>Trie\<close> with \<open>insert\<close> and
  \<open>get_words_that_start_with\<close>) is not among the sources. Following sections 3 and 4.1 of
  the specification, a node holds the marker "a complete word ends here" and a mapping from
  the next character to the child node; the root has no character.
\<close>

datatype trie = TrieNode (is_end: bool) (children: "(char \<times> trie) list")

text \<open>
  Modelled from the spec: the constructor of the missing \<open>_trie.Trie\<close>, the trie with no
  word: a root that is not terminal and has no child.
\<close>

definition Trie :: trie where
  "Trie = TrieNode False []"

text \<open>
  Modelled from the spec: \<open>insert(word)\<close> of the missing \<open>_trie.Trie\<close> walks the word from
  the root, creating the children that are missing, and marks the node reached as
  terminal; the empty word marks the root. Inserting a word twice changes nothing.
\<close>

fun trie_insert :: "string \<Rightarrow> trie \<Rightarrow> trie" where
  "trie_insert [] (TrieNode e cs) = TrieNode True cs"
| "trie_insert (c # word) (TrieNode e cs) =
     TrieNode e
       (dict_set c
          (trie_insert word (case map_of cs c of None \<Rightarrow> TrieNode False [] | Some node \<Rightarrow> node))
          cs)"

text \<open>
  Modelled from the spec: the depth-first collection of the missing \<open>_trie.Trie\<close>, all
  complete words reachable from a node, each as the characters below that node.
\<close>

fun dfs :: "trie \<Rightarrow> string list" where
  "dfs (TrieNode e cs) =
     (if e then [[]] else []) @ concat (map (\<lambda>(c, node). map ((#) c) (dfs node)) cs)"

text \<open>
  Modelled from the spec: the walk of the missing \<open>_trie.Trie\<close> along a prefix,
  character by character from the root; \<open>None\<close> when a character has no child.
\<close>

fun walk :: "string \<Rightarrow> trie \<Rightarrow> trie option" where
  "walk [] node = Some node"
| "walk (c # pre) (TrieNode e cs) =
     (case map_of cs c of None \<Rightarrow> None | Some node \<Rightarrow> walk pre node)"

text \<open>
  Modelled from the spec: \<open>get_words_that_start_with(prefix)\<close> of the missing
  \<open>_trie.Trie\<close> (the spec's \<open>wordsWithPrefix\<close>) returns the set of the inserted words
  that have the prefix, the empty set and never an error when nothing matches.
\<close>

definition get_words_that_start_with :: "trie \<Rightarrow> string \<Rightarrow> string list" where
  "get_words_that_start_with t pre =
     (case walk pre t of
        None \<Rightarrow> []
      | Some node \<Rightarrow> map ((@) pre) (dfs node))"


section \<open>The engine\<close>

text \<open>The enum \<open>Defaults\<close>, and what a keyword argument of the constructor may be: a
  list of words or one of the defaults.\<close>

datatype Defaults = NOUNS | VERBS | ADJECTIVES | PROFANITIES

datatype category_source = Words "string list" | Default Defaults

text \<open>The attributes \<open>_categories\<close> (a dict from the category name to its words) and
  \<open>_tries\<close> (\<open>None\<close>, or the pair of the trie of the words and the trie of the reversed
  words).\<close>

record random_word =
  categories :: "(string \<times> string list) list"
  tries :: "(trie \<times> trie) option"

text \<open>\<open>RandomWord._custom_categories\<close>. The bundled word lists of
  \<open>_default_categories\<close> are read from asset files and are a parameter here.
  \<open>list.sort(key=len)\<close> is a stable sort, as \<open>sort_key\<close> is.\<close>

definition custom_categories ::
  "(Defaults \<Rightarrow> string list) \<Rightarrow> (string \<times> category_source) list \<Rightarrow> (string \<times> string list) list" where
  "custom_categories default_categories custom =
     fold (\<lambda>(name, words) out.
             let word_list = (case words of Default d \<Rightarrow> default_categories d | Words l \<Rightarrow> l)
             in dict_set name (sort_key length word_list) out)
          custom []"

text \<open>The two loops of \<open>__init__\<close> that fill the tries.\<close>

definition build_tries :: "(string \<times> string list) list \<Rightarrow> trie \<times> trie" where
  "build_tries cats =
     fold (\<lambda>(name, category) ts.
             fold (\<lambda>word (t0, t1). (trie_insert word t0, trie_insert (rev word) t1)) category ts)
          cats (Trie, Trie)"

definition default_kwargs :: "(string \<times> category_source) list" where
  "default_kwargs =
     [(''noun'', Default NOUNS), (''verb'', Default VERBS), (''adjective'', Default ADJECTIVES),
      (''nouns'', Default NOUNS), (''verbs'', Default VERBS), (''adjectives'', Default ADJECTIVES)]"

text \<open>\<open>RandomWord.__init__\<close>.\<close>

definition RandomWord ::
  "(Defaults \<Rightarrow> string list) \<Rightarrow> bool \<Rightarrow> (string \<times> category_source) list \<Rightarrow> random_word" where
  "RandomWord default_categories enhanced_prefixes kwargs =
     (let cats = custom_categories default_categories
                   (if kwargs \<noteq> [] then kwargs else default_kwargs)
      in \<lparr> categories = cats,
           tries = (if enhanced_prefixes then Some (build_tries cats) else None) \<rparr>)"

text \<open>All the words of the engine, over all its categories.\<close>

definition all_words :: "(string \<times> string list) list \<Rightarrow> string set" where
  "all_words cats = (\<Union>ws \<in> snd ` set cats. set ws)"

section \<open>Filtering\<close>

text \<open>
  \<open>re.fullmatch(pattern, word)\<close> belongs to Python's standard library. The regular
  expression engine is a parameter: it compiles a pattern to the predicate "the whole
  word matches", or to \<open>None\<close> when the pattern is not valid, in which case
  \<open>re.fullmatch\<close> raises \<open>re.error\<close>.
\<close>

type_synonym regex_engine = "string \<Rightarrow> (string \<Rightarrow> bool) option"

definition fullmatch :: "regex_engine \<Rightarrow> string \<Rightarrow> string \<Rightarrow> error + bool" where
  "fullmatch re pattern word =
     (case re pattern of None \<Rightarrow> Inl ReError | Some matches \<Rightarrow> Inr (matches word))"

text \<open>The dict \<open>long_operations\<close>: which of its four keys are present, and the value of
  each.\<close>

record long_operations =
  lo_regex :: "string option"
  lo_exclude_with_spaces :: bool
  lo_starts_with :: "string option"
  lo_ends_with :: "string option"

text \<open>\<open>RandomWord._perform_long_operations\<close>: the loop over the words, with the set
  \<open>remove_words\<close> built so far.\<close>

fun long_operations_loop ::
  "regex_engine \<Rightarrow> string list \<Rightarrow> long_operations \<Rightarrow> string list \<Rightarrow> error + string list" where
  "long_operations_loop re [] ops remove_words = Inr remove_words"
| "long_operations_loop re (word # words) ops remove_words =
     (case (case lo_regex ops of
              None \<Rightarrow> Inr False
            | Some pattern \<Rightarrow> map_sum id Not (fullmatch re pattern word)) of
        Inl e \<Rightarrow> Inl e
      | Inr no_match \<Rightarrow>
          long_operations_loop re words ops
            (if no_match
                \<or> (lo_exclude_with_spaces ops \<and> CHR '' '' \<in> set word)
                \<or> (case lo_starts_with ops of None \<Rightarrow> False | Some s \<Rightarrow> \<not> prefix s word)
                \<or> (case lo_ends_with ops of None \<Rightarrow> False | Some s \<Rightarrow> \<not> suffix s word)
             then List.insert word remove_words
             else remove_words))"

definition perform_long_operations ::
  "regex_engine \<Rightarrow> string list \<Rightarrow> long_operations \<Rightarrow> error + string list" where
  "perform_long_operations re words ops = long_operations_loop re words ops []"

text \<open>The choice of the categories at the start of \<open>filter\<close>: \<open>not include_categories\<close>
  holds of \<open>None\<close> and of the empty list.\<close>

definition resolve_categories ::
  "random_word \<Rightarrow> string list option \<Rightarrow> string list option \<Rightarrow> string list" where
  "resolve_categories self include_categories include_parts_of_speech =
     (if include_categories = None \<or> include_categories = Some []
      then (if include_parts_of_speech \<noteq> None \<and> include_parts_of_speech \<noteq> Some []
            then the include_parts_of_speech
            else map fst (categories self))
      else the include_categories)"

definition invalid_category :: "string \<Rightarrow> error" where
  "invalid_category category =
     ValueError (CHR 0x27 # category @ CHR 0x27 # '' is an invalid category'')"

text \<open>The loop of \<open>filter\<close> over the chosen categories, with the set \<open>words\<close> built so
  far.\<close>

fun collect_words ::
  "(string \<times> string list) list \<Rightarrow> string list \<Rightarrow> int option \<Rightarrow> int option \<Rightarrow> string list
   \<Rightarrow> error + string list" where
  "collect_words cats [] word_min_length word_max_length words = Inr words"
| "collect_words cats (category # rest) word_min_length word_max_length words =
     (case map_of cats category of
        None \<Rightarrow> Inl (invalid_category category)
      | Some words_in_category \<Rightarrow>
          (case get_words_of_length words_in_category word_min_length word_max_length of
             Inl e \<Rightarrow> Inl e
           | Inr words_to_add \<Rightarrow>
               collect_words cats rest word_min_length word_max_length
                 (set_update words words_to_add)))"

text \<open>\<open>RandomWord.filter\<close>, its arguments in the order of the source.\<close>

definition filter_words ::
  "regex_engine \<Rightarrow> random_word \<Rightarrow> string \<Rightarrow> string \<Rightarrow> string list option \<Rightarrow> string list option
   \<Rightarrow> int option \<Rightarrow> int option \<Rightarrow> string option \<Rightarrow> bool \<Rightarrow> error + string list" where
  "filter_words re self starts_with ends_with include_categories include_parts_of_speech
       word_min_length word_max_length regex exclude_with_spaces =
     (case validate_lengths word_min_length word_max_length of
        Inl e \<Rightarrow> Inl e
      | Inr (word_min_length, word_max_length) \<Rightarrow>
          (case collect_words (categories self)
                  (resolve_categories self include_categories include_parts_of_speech)
                  word_min_length word_max_length [] of
             Inl e \<Rightarrow> Inl e
           | Inr words \<Rightarrow>
               let words =
                     (case tries self of
                        None \<Rightarrow> words
                      | Some (t0, t1) \<Rightarrow>
                          let words =
                                (if starts_with \<noteq> []
                                 then set_inter words (get_words_that_start_with t0 starts_with)
                                 else words)
                          in (if ends_with \<noteq> []
                              then set_inter words
                                     (map rev (get_words_that_start_with t1 (rev ends_with)))
                              else words));
                   long_operations =
                     \<lparr> lo_regex = regex,
                       lo_exclude_with_spaces = exclude_with_spaces,
                       lo_starts_with =
                         (if tries self = None \<and> starts_with \<noteq> [] then Some starts_with else None),
                       lo_ends_with =
                         (if tries self = None \<and> ends_with \<noteq> [] then Some ends_with else None) \<rparr>
               in if lo_regex long_operations \<noteq> None \<or> lo_exclude_with_spaces long_operations
                     \<or> lo_starts_with long_operations \<noteq> None \<or> lo_ends_with long_operations \<noteq> None
                  then (case perform_long_operations re words long_operations of
                          Inl e \<Rightarrow> Inl e
                        | Inr remove_words \<Rightarrow> Inr (set_minus words remove_words))
                  else Inr words))"


section \<open>Sampling\<close>

text \<open>
  \<open>random.shuffle\<close> and \<open>random.choice\<close> belong to Python's standard library. The
  generator is modelled as an infinite tape of raw draws; \<open>randbelow n\<close> reads one draw,
  reduces it to \<open>0 \<le> j < n\<close> and moves the tape on. \<open>choice\<close> raises \<open>IndexError\<close> on
  an empty sequence; \<open>shuffle\<close> is the loop
  \<open>for i in reversed(range(1, len(x))): j = randbelow(i + 1); x[i], x[j] = x[j], x[i]\<close>.
\<close>

type_synonym rng = "nat \<Rightarrow> nat"

definition randbelow :: "rng \<Rightarrow> nat \<Rightarrow> nat \<times> rng" where
  "randbelow g n = (g 0 mod n, \<lambda>i. g (Suc i))"

definition choice :: "rng \<Rightarrow> 'a list \<Rightarrow> error + ('a \<times> rng)" where
  "choice g seq =
     (if seq = [] then Inl IndexError
      else let (i, g') = randbelow g (length seq) in Inr (seq ! i, g'))"

fun shuffle_loop :: "rng \<Rightarrow> nat \<Rightarrow> 'a list \<Rightarrow> 'a list \<times> rng" where
  "shuffle_loop g 0 x = (x, g)"
| "shuffle_loop g (Suc k) x =
     (let i = Suc k;
          (j, g') = randbelow g (i + 1)
      in shuffle_loop g' k (x[i := x ! j, j := x ! i]))"

definition shuffle :: "rng \<Rightarrow> 'a list \<Rightarrow> 'a list \<times> rng" where
  "shuffle g x = shuffle_loop g (length x - 1) x"

text \<open>\<open>str(amount)\<close>: the decimal digits of an integer.\<close>

fun digits :: "nat \<Rightarrow> string" where
  "digits n =
     (if n < 10 then [''0123456789'' ! n]
      else digits (n div 10) @ [''0123456789'' ! (n mod 10)])"

definition str :: "int \<Rightarrow> string" where
  "str i = (if i < 0 then CHR ''-'' # digits (nat (- i)) else digits (nat i))"

definition not_enough_words :: "int \<Rightarrow> error" where
  "not_enough_words amount =
     NoWordsToChoseFrom
       (''There aren'' @ CHR 0x27 # ''t enough words to choose from. Cannot generate ''
        @ str amount @ '' word(s)'')"

text \<open>The loop \<open>for _ in range(amount)\<close> of \<open>random_words\<close>, with the list
  \<open>choose_from\<close> and the list \<open>words\<close> built so far.\<close>

fun draw_words :: "rng \<Rightarrow> nat \<Rightarrow> string list \<Rightarrow> string list \<Rightarrow> error + string list" where
  "draw_words g 0 choose_from words = Inr words"
| "draw_words g (Suc n) choose_from words =
     (case choice g choose_from of
        Inl e \<Rightarrow> Inl e
      | Inr (new_word, g') \<Rightarrow>
          draw_words g' n (remove1 new_word choose_from) (words @ [new_word]))"

text \<open>\<open>RandomWord.random_words\<close>.\<close>

definition random_words ::
  "regex_engine \<Rightarrow> rng \<Rightarrow> random_word \<Rightarrow> int \<Rightarrow> string \<Rightarrow> string \<Rightarrow> string list option
   \<Rightarrow> string list option \<Rightarrow> int option \<Rightarrow> int option \<Rightarrow> string option \<Rightarrow> bool \<Rightarrow> bool
   \<Rightarrow> error + string list" where
  "random_words re g self amount starts_with ends_with include_categories
       include_parts_of_speech word_min_length word_max_length regex
       return_less_if_necessary exclude_with_spaces =
     (case filter_words re self starts_with ends_with include_categories
             include_parts_of_speech word_min_length word_max_length regex
             exclude_with_spaces of
        Inl e \<Rightarrow> Inl e
      | Inr choose_from \<Rightarrow>
          if \<not> return_less_if_necessary \<and> int (length choose_from) < amount
          then Inl (not_enough_words amount)
          else if return_less_if_necessary
          then Inr (fst (shuffle g choose_from))
          else draw_words g (nat amount) choose_from [])"

section \<open>Example inputs\<close>

text \<open>The categories of the specification's end-to-end examples, an engine without
  bundled word lists, a tape of draws, and a regular expression engine that agrees with
  \<open>re.fullmatch\<close> on the patterns used below: a word of letters matches itself only, and
  the pattern \<open>(\<close> does not compile.\<close>

definition example_kwargs :: "(string \<times> category_source) list" where
  "example_kwargs =
     [(''noun'', Words [''apple'', ''ant'', ''orange'']),
      (''adjective'', Words [''angry'', ''red''])]"

definition no_default_words :: "Defaults \<Rightarrow> string list" where
  "no_default_words d = []"

definition example_tape :: rng where
  "example_tape i = 7 * i + 3"

definition literal_re :: regex_engine where
  "literal_re pattern = (if pattern = ''('' then None else Some (\<lambda>word. word = pattern))"

section \<open>The length slice\<close>

lemma take_short:
  "sorted (map length ws) \<Longrightarrow>
   take (length (filter (\<lambda>w. int (length w) < t) ws)) ws = filter (\<lambda>w. int (length w) < t) ws"
proof (induction ws)
  case Nil
  then show ?case by simp
next
  case (Cons w ws)
  show ?case
  proof (cases "int (length w) < t")
    case True
    with Cons show ?thesis by simp
  next
    case False
    with Cons.prems have "\<forall>x \<in> set ws. \<not> int (length x) < t" by auto
    then have "filter (\<lambda>w. int (length w) < t) ws = []" by (simp add: filter_empty_conv)
    with False show ?thesis by simp
  qed
qed

lemma drop_short:
  "sorted (map length ws) \<Longrightarrow>
   drop (length (filter (\<lambda>w. int (length w) < t) ws)) ws = filter (\<lambda>w. t \<le> int (length w)) ws"
proof (induction ws)
  case Nil
  then show ?case by simp
next
  case (Cons w ws)
  show ?case
  proof (cases "int (length w) < t")
    case True
    with Cons show ?thesis by simp
  next
    case False
    with Cons.prems have a: "\<forall>x \<in> set ws. \<not> int (length x) < t" by auto
    then have "filter (\<lambda>w. int (length w) < t) ws = []" by (simp add: filter_empty_conv)
    moreover from a have "filter (\<lambda>w. t \<le> int (length w)) ws = ws"
      by (auto simp: filter_id_conv)
    ultimately show ?thesis using False by simp
  qed
qed

lemma short_prefix:
  assumes "k \<le> length ws"
    and "\<forall>i<k. P (ws ! i)"
    and "\<forall>i. k \<le> i \<and> i < length ws \<longrightarrow> \<not> P (ws ! i)"
  shows "length (filter P ws) = k"
proof -
  have "\<forall>x \<in> set (take k ws). P x"
    using assms(1,2) by (auto simp: in_set_conv_nth)
  then have a: "filter P (take k ws) = take k ws" by (simp add: filter_id_conv)
  have "\<forall>x \<in> set (drop k ws). \<not> P x"
    using assms(3) by (auto simp: in_set_conv_nth)
  then have b: "filter P (drop k ws) = []" by (simp add: filter_empty_conv)
  have "filter P ws = filter P (take k ws) @ filter P (drop k ws)"
    by (metis append_take_drop_id filter_append)
  with a b assms(1) show ?thesis by simp
qed

text \<open>The loop invariant of the bisection: every word left of \<open>left\<close> is shorter than the
  target, no word right of \<open>right\<close> is. On a list sorted by length the loop returns the
  number of words shorter than the target, and it never reads out of range.\<close>

lemma bisect_loop_correct:
  "sorted (map length ws) \<Longrightarrow> 0 \<le> l \<Longrightarrow> r < int (length ws) \<Longrightarrow> l \<le> r + 1 \<Longrightarrow>
   (\<forall>i < nat l. int (length (ws ! i)) < t) \<Longrightarrow>
   (\<forall>i. nat (r + 1) \<le> i \<and> i < length ws \<longrightarrow> t \<le> int (length (ws ! i))) \<Longrightarrow>
   bisect_loop ws t l r = Inr (int (length (filter (\<lambda>w. int (length w) < t) ws)))"
proof (induction ws t l r rule: bisect_loop.induct)
  case (1 ws t l r)
  show ?case
  proof (cases "l \<le> r")
    case False
    with "1.prems" have lr: "l = r + 1" by simp
    have "length (filter (\<lambda>w. int (length w) < t) ws) = nat l"
    proof (rule short_prefix)
      show "nat l \<le> length ws" using "1.prems" lr by simp
      show "\<forall>i<nat l. int (length (ws ! i)) < t" using "1.prems" by simp
      show "\<forall>i. nat l \<le> i \<and> i < length ws \<longrightarrow> \<not> int (length (ws ! i)) < t"
        using "1.prems"(6) lr by (simp add: not_less)
    qed
    with False "1.prems"(2) show ?thesis by simp
  next
    case True
    define m where "m = l + (r - l) div 2"
    have mb: "l \<le> m" "m \<le> r" using True by (auto simp: m_def)
    then have mr: "0 \<le> m" "m < int (length ws)" using "1.prems" by auto
    then have gi: "py_getitem ws m = Inr (ws ! nat m)" by (simp add: py_getitem_def)
    have srt: "\<And>i j. i \<le> j \<Longrightarrow> j < length ws \<Longrightarrow> length (ws ! i) \<le> length (ws ! j)"
      using "1.prems"(1)
      by (metis (no_types, lifting) le_less_trans length_map nth_map sorted_nth_mono)
    show ?thesis
    proof (cases "int (length (ws ! nat m)) < t")
      case lt: True
      have "bisect_loop ws t (m + 1) r = Inr (int (length (filter (\<lambda>w. int (length w) < t) ws)))"
      proof (rule "1.IH"(1)[OF True m_def gi lt])
        show "sorted (map length ws)" by fact
        show "0 \<le> m + 1" using mr by simp
        show "r < int (length ws)" by fact
        show "m + 1 \<le> r + 1" using mb by simp
        show "\<forall>i<nat (m + 1). int (length (ws ! i)) < t"
        proof (intro allI impI)
          fix i assume "i < nat (m + 1)"
          then have "i \<le> nat m" using mr by linarith
          then have "length (ws ! i) \<le> length (ws ! nat m)" using srt mr by simp
          with lt show "int (length (ws ! i)) < t" by linarith
        qed
        show "\<forall>i. nat (r + 1) \<le> i \<and> i < length ws \<longrightarrow> t \<le> int (length (ws ! i))" by fact
      qed
      with True gi lt show ?thesis
        by (subst bisect_loop.simps) (simp add: m_def Let_def)
    next
      case ge: False
      have "bisect_loop ws t l (m - 1) = Inr (int (length (filter (\<lambda>w. int (length w) < t) ws)))"
      proof (rule "1.IH"(2)[OF True m_def gi ge])
        show "sorted (map length ws)" by fact
        show "0 \<le> l" by fact
        show "m - 1 < int (length ws)" using mr by simp
        show "l \<le> m - 1 + 1" using mb by simp
        show "\<forall>i<nat l. int (length (ws ! i)) < t" by fact
        show "\<forall>i. nat (m - 1 + 1) \<le> i \<and> i < length ws \<longrightarrow> t \<le> int (length (ws ! i))"
        proof (intro allI impI)
          fix i assume a: "nat (m - 1 + 1) \<le> i \<and> i < length ws"
          then have "nat m \<le> i" by simp
          then have "length (ws ! nat m) \<le> length (ws ! i)" using srt a by simp
          with ge show "t \<le> int (length (ws ! i))" by linarith
        qed
      qed
      with True gi ge show ?thesis
        by (subst bisect_loop.simps) (simp add: m_def Let_def)
    qed
  qed
qed

lemma bisect_by_length_correct:
  assumes "sorted (map length ws)"
  shows "bisect_by_length ws t = Inr (int (length (filter (\<lambda>w. int (length w) < t) ws)))"
  unfolding bisect_by_length_def
  by (rule bisect_loop_correct[OF assms]) auto

lemma py_slice_nonneg:
  "py_slice xs (int l) None = drop l xs"
  "py_slice xs (int l) (Some (int h)) = drop l (take h xs)"
  by (auto simp: py_slice_def Let_def min_def)

lemma drop_take_short:
  assumes "sorted (map length ws)"
  shows "drop (length (filter (\<lambda>w. int (length w) < a) ws))
           (take (length (filter (\<lambda>w. int (length w) < b) ws)) ws)
         = filter (\<lambda>w. a \<le> int (length w) \<and> int (length w) < b) ws"
proof -
  let ?F = "filter (\<lambda>w. int (length w) < b) ws"
  have tk: "take (length ?F) ws = ?F" by (rule take_short[OF assms])
  have sF: "sorted (map length ?F)" using assms by (rule sorted_filter)
  show ?thesis
  proof (cases "a \<le> b")
    case True
    then have "filter (\<lambda>w. int (length w) < a) ?F = filter (\<lambda>w. int (length w) < a) ws"
      by (auto intro: filter_cong)
    then have "drop (length (filter (\<lambda>w. int (length w) < a) ws)) ?F
               = filter (\<lambda>w. a \<le> int (length w)) ?F"
      using drop_short[OF sF, of a] by simp
    also have "\<dots> = filter (\<lambda>w. a \<le> int (length w) \<and> int (length w) < b) ws"
      by (auto intro: filter_cong)
    finally show ?thesis using tk by simp
  next
    case False
    then have "filter (\<lambda>w. int (length w) < a) ?F = ?F"
      by (intro filter_True) auto
    moreover have "length (filter (\<lambda>w. int (length w) < a) ?F)
                   \<le> length (filter (\<lambda>w. int (length w) < a) ws)"
      by (simp add: conj_commute length_filter_le[of _ "filter _ ws"] del: length_filter_le)
         (metis filter_filter length_filter_le)
    ultimately have "length ?F \<le> length (filter (\<lambda>w. int (length w) < a) ws)" by simp
    then have "drop (length (filter (\<lambda>w. int (length w) < a) ws)) ?F = []" by simp
    moreover from False have "filter (\<lambda>w. a \<le> int (length w) \<and> int (length w) < b) ws = []"
      by (auto simp: filter_empty_conv)
    ultimately show ?thesis using tk by simp
  qed
qed

text \<open>
  Claim C3. On every list of words sorted ascending by length and for every pair of
  bounds, each possibly absent, the slice computed by the two binary searches is exactly
  the sub-list of the words whose length lies within the bounds, an absent bound being
  no bound; the bisection raises no error. The empty list, a minimum above every length
  and equal bounds are instances.
\<close>

theorem get_words_of_length_slice:
  assumes "sorted (map length word_list)"
  shows "get_words_of_length word_list min_length max_length
         = Inr (filter (length_within min_length max_length) word_list)"
proof -
  define cnt where "cnt t = length (filter (\<lambda>w. int (length w) < t) word_list)" for t
  have bis: "bisect_by_length word_list t = Inr (int (cnt t))" for t
    unfolding cnt_def by (rule bisect_by_length_correct[OF assms])
  have tk: "take (cnt t) word_list = filter (\<lambda>w. int (length w) < t) word_list" for t
    unfolding cnt_def by (rule take_short[OF assms])
  have dr: "drop (cnt t) word_list = filter (\<lambda>w. t \<le> int (length w)) word_list" for t
    unfolding cnt_def by (rule drop_short[OF assms])
  have dt: "drop (cnt a) (take (cnt b) word_list)
            = filter (\<lambda>w. a \<le> int (length w) \<and> int (length w) < b) word_list" for a b
    unfolding cnt_def by (rule drop_take_short[OF assms])
  show ?thesis
  proof (cases min_length)
    case None
    show ?thesis
    proof (cases max_length)
      case mx: None
      have "py_slice word_list 0 None = word_list"
        using py_slice_nonneg(1)[of word_list 0] by simp
      with None mx show ?thesis
        by (simp add: get_words_of_length_def length_within_def)
    next
      case (Some b)
      have "get_words_of_length word_list None (Some b)
            = Inr (py_slice word_list (int 0) (Some (int (cnt (b + 1)))))"
        by (simp add: get_words_of_length_def bis)
      also have "py_slice word_list (int 0) (Some (int (cnt (b + 1))))
                 = filter (\<lambda>w. int (length w) < b + 1) word_list"
        unfolding py_slice_nonneg tk by simp
      also have "\<dots> = filter (length_within None (Some b)) word_list"
        by (auto intro: filter_cong simp: length_within_def)
      finally show ?thesis using None Some by simp
    qed
  next
    case (Some a)
    show ?thesis
    proof (cases max_length)
      case None
      have "get_words_of_length word_list (Some a) None
            = Inr (py_slice word_list (int (cnt a)) None)"
        by (simp add: get_words_of_length_def bis)
      also have "py_slice word_list (int (cnt a)) None
                 = filter (\<lambda>w. a \<le> int (length w)) word_list"
        unfolding py_slice_nonneg dr by simp
      also have "\<dots> = filter (length_within (Some a) None) word_list"
        by (auto intro: filter_cong simp: length_within_def)
      finally show ?thesis using Some None by simp
    next
      case mx: (Some b)
      have "get_words_of_length word_list (Some a) (Some b)
            = Inr (py_slice word_list (int (cnt a)) (Some (int (cnt (b + 1)))))"
        by (simp add: get_words_of_length_def bis)
      also have "py_slice word_list (int (cnt a)) (Some (int (cnt (b + 1))))
                 = filter (\<lambda>w. a \<le> int (length w) \<and> int (length w) < b + 1) word_list"
        unfolding py_slice_nonneg dt by simp
      also have "\<dots> = filter (length_within (Some a) (Some b)) word_list"
        by (auto intro: filter_cong simp: length_within_def)
      finally show ?thesis using Some mx by simp
    qed
  qed
qed

theorem get_words_of_length_slice_witness:
  "sorted (map length [''a'', ''bb'', ''cc'', ''ddd'', ''eeeee''])
   \<and> get_words_of_length [''a'', ''bb'', ''cc'', ''ddd'', ''eeeee''] (Some 2) (Some 3)
       = Inr [''bb'', ''cc'', ''ddd'']
   \<and> get_words_of_length [''a'', ''bb'', ''cc'', ''ddd'', ''eeeee''] (Some 6) None = Inr []
   \<and> get_words_of_length [''a'', ''bb'', ''cc'', ''ddd'', ''eeeee''] None None
       = Inr [''a'', ''bb'', ''cc'', ''ddd'', ''eeeee'']
   \<and> get_words_of_length [''a'', ''bb'', ''cc'', ''ddd'', ''eeeee''] (Some 2) (Some 2)
       = Inr [''bb'', ''cc'']
   \<and> get_words_of_length [] (Some 2) (Some 3) = Inr []"
proof -
  have h: "sorted (map length [''a'', ''bb'', ''cc'', ''ddd'', ''eeeee''])" by simp
  have h0: "sorted (map length ([] :: string list))" by simp
  show ?thesis
    using h get_words_of_length_slice[OF h, of "Some 2" "Some 3"]
      get_words_of_length_slice[OF h, of "Some 6" None]
      get_words_of_length_slice[OF h, of None None]
      get_words_of_length_slice[OF h, of "Some 2" "Some 2"]
      get_words_of_length_slice[OF h0, of "Some 2" "Some 3"]
    by (simp add: length_within_def)
qed

section \<open>The contract of the prefix index\<close>









section \<open>No error from the length slice, and the words collected\<close>

lemma bisect_loop_total:
  "0 \<le> l \<Longrightarrow> r < int (length ws) \<Longrightarrow> \<exists>k. bisect_loop ws t l r = Inr k"
proof (induction ws t l r rule: bisect_loop.induct)
  case (1 ws t l r)
  show ?case
  proof (cases "l \<le> r")
    case False
    then show ?thesis by simp
  next
    case True
    define m where "m = l + (r - l) div 2"
    have mb: "l \<le> m" "m \<le> r" using True by (auto simp: m_def)
    then have mr: "0 \<le> m" "m < int (length ws)" using "1.prems" by auto
    then have gi: "py_getitem ws m = Inr (ws ! nat m)" by (simp add: py_getitem_def)
    show ?thesis
    proof (cases "int (length (ws ! nat m)) < t")
      case lt: True
      have "\<exists>k. bisect_loop ws t (m + 1) r = Inr k"
        using "1.IH"(1)[OF True m_def gi lt] mr "1.prems" by simp
      with True gi lt show ?thesis
        by (subst bisect_loop.simps) (simp add: m_def Let_def)
    next
      case ge: False
      have "\<exists>k. bisect_loop ws t l (m - 1) = Inr k"
        using "1.IH"(2)[OF True m_def gi ge] mr "1.prems" by simp
      with True gi ge show ?thesis
        by (subst bisect_loop.simps) (simp add: m_def Let_def)
    qed
  qed
qed

lemma bisect_by_length_total: "\<exists>k. bisect_by_length ws t = Inr k"
  unfolding bisect_by_length_def by (rule bisect_loop_total) auto

lemma set_py_slice: "set (py_slice xs lo hi) \<subseteq> set xs"
  unfolding py_slice_def Let_def
  by (meson set_drop_subset set_take_subset subset_trans)

lemma distinct_py_slice: "distinct xs \<Longrightarrow> distinct (py_slice xs lo hi)"
  unfolding py_slice_def Let_def by simp

lemma get_words_of_length_total:
  "\<exists>ws'. get_words_of_length ws mn mx = Inr ws' \<and> set ws' \<subseteq> set ws"
proof -
  obtain l where l: "(case mn of None \<Rightarrow> Inr 0 | Some m \<Rightarrow> bisect_by_length ws m) = Inr l"
  proof (cases mn)
    case None
    then show ?thesis using that by simp
  next
    case (Some m)
    obtain k where "bisect_by_length ws m = Inr k" using bisect_by_length_total by blast
    with Some show ?thesis using that by simp
  qed
  obtain r where r: "(case mx of None \<Rightarrow> Inr None
                       | Some m \<Rightarrow> map_sum id Some (bisect_by_length ws (m + 1))) = Inr r"
  proof (cases mx)
    case None
    then show ?thesis using that by simp
  next
    case (Some m)
    obtain k where "bisect_by_length ws (m + 1) = Inr k" using bisect_by_length_total by blast
    with Some show ?thesis using that by simp
  qed
  have "get_words_of_length ws mn mx = Inr (py_slice ws l r)"
    unfolding get_words_of_length_def l r by simp
  moreover have "set (py_slice ws l r) \<subseteq> set ws" by (rule set_py_slice)
  ultimately show ?thesis by (intro exI conjI)
qed

lemma map_of_all_words: "map_of cats c = Some ws \<Longrightarrow> set ws \<subseteq> all_words cats"
  unfolding all_words_def by (auto dest!: map_of_SomeD simp: rev_image_eqI)

lemma set_update_props:
  "set (set_update s xs) = set s \<union> set xs"
  "distinct s \<Longrightarrow> distinct (set_update s xs)"
  by (auto simp: set_update_def)

lemma collect_words_result:
  "collect_words cats names mn mx acc = Inr W \<Longrightarrow> distinct acc \<Longrightarrow> set acc \<subseteq> all_words cats
   \<Longrightarrow> distinct W \<and> set W \<subseteq> all_words cats"
proof (induction names arbitrary: acc)
  case Nil
  then show ?case by simp
next
  case (Cons c names)
  from Cons.prems(1) obtain ws where ws: "map_of cats c = Some ws"
    by (cases "map_of cats c") auto
  obtain ws' where ws': "get_words_of_length ws mn mx = Inr ws'" "set ws' \<subseteq> set ws"
    using get_words_of_length_total by blast
  have rec: "collect_words cats names mn mx (set_update acc ws') = Inr W"
    using Cons.prems(1) ws ws' by simp
  have "set (set_update acc ws') \<subseteq> all_words cats"
    using Cons.prems(3) ws'(2) map_of_all_words[OF ws] by (auto simp: set_update_props)
  then show ?case
    using Cons.IH[OF rec] Cons.prems(2) by (simp add: set_update_props)
qed

lemma collect_words_unknown:
  "find (\<lambda>c. map_of cats c = None) names = Some c \<Longrightarrow>
   collect_words cats names mn mx acc = Inl (invalid_category c)"
proof (induction names arbitrary: acc)
  case Nil
  then show ?case by simp
next
  case (Cons n names)
  show ?case
  proof (cases "map_of cats n")
    case None
    with Cons.prems show ?thesis by simp
  next
    case (Some ws)
    obtain ws' where ws': "get_words_of_length ws mn mx = Inr ws'"
      using get_words_of_length_total by blast
    from Some Cons.prems have "find (\<lambda>c. map_of cats c = None) names = Some c" by simp
    then show ?thesis using Cons.IH Some ws' by simp
  qed
qed




section \<open>The long operations\<close>





section \<open>With and without tries\<close>




section \<open>The length bounds of a call\<close>

text \<open>
  Claim C7. A filter call in which both bounds are given, the minimum is greater than the
  maximum and the maximum is not 0 fails with the \<open>ValueError\<close> of
  \<open>_validate_lengths\<close>; the bounds are not adjusted.
\<close>

theorem min_above_max_rejected:
  assumes "b < a" and "b \<noteq> 0"
  shows "filter_words re self sw ew ic ips (Some a) (Some b) regex ex
         = Inl (ValueError ''word_min_length cannot be greater than word_max_length'')"
  using assms by (simp add: filter_words_def validate_lengths_def)

theorem min_above_max_rejected_witness:
  "(3::int) < 5 \<and> (3::int) \<noteq> 0
   \<and> filter_words literal_re (RandomWord no_default_words False example_kwargs)
        ''a'' '''' (Some [''noun'']) None (Some 5) (Some 3) None False
      = Inl (ValueError ''word_min_length cannot be greater than word_max_length'')"
proof -
  have h: "(3::int) < 5" "(3::int) \<noteq> 0" by simp_all
  show ?thesis
    using h min_above_max_rejected[OF h, of literal_re
        "RandomWord no_default_words False example_kwargs" "''a''" "''''" "Some [''noun'']" None None False]
    by simp
qed





text \<open>
  Claim C2. A maximum length of 0 is exempt from the check of the pair in
  \<open>_validate_lengths\<close>, but \<open>_get_words_of_length\<close> still applies it as a bound: on the
  category \<open>noun = ["apple"]\<close> the call with \<open>word_max_length = 0\<close> returns no word, the
  call with \<open>word_max_length = None\<close> returns \<open>apple\<close>.
\<close>

theorem max_length_zero_is_applied:
  "filter_words literal_re (RandomWord no_default_words False [(''noun'', Words [''apple''])])
       '''' '''' None None None (Some 0) None False = Inr []
   \<and> filter_words literal_re (RandomWord no_default_words False [(''noun'', Words [''apple''])])
       '''' '''' None None None None None False = Inr [''apple'']"
  by code_simp

theorem max_length_zero_is_applied_witness:
  "filter_words literal_re (RandomWord no_default_words False [(''noun'', Words [''apple''])])
       '''' '''' None None None (Some 0) None False
   \<noteq> filter_words literal_re (RandomWord no_default_words False [(''noun'', Words [''apple''])])
       '''' '''' None None None None None False"
  using max_length_zero_is_applied by simp

section \<open>The categories of a call\<close>

text \<open>
  Claim C6, as amended. A filter call whose length bounds pass validation and whose
  resolved list of categories contains a name that is not a category of the engine fails
  with the \<open>ValueError\<close> whose message names the first such name of the list.
\<close>

theorem unknown_category_rejected:
  assumes "validate_lengths mn mx = Inr bounds"
    and "\<not> set (resolve_categories self ic ips) \<subseteq> fst ` set (categories self)"
  shows "\<exists>c. find (\<lambda>c. c \<notin> fst ` set (categories self)) (resolve_categories self ic ips) = Some c
           \<and> filter_words re self sw ew ic ips mn mx regex ex
               = Inl (ValueError (CHR 0x27 # c @ CHR 0x27 # '' is an invalid category''))"
proof -
  obtain c where c: "find (\<lambda>c. c \<notin> fst ` set (categories self)) (resolve_categories self ic ips) = Some c"
    using assms(2) by (cases "find (\<lambda>c. c \<notin> fst ` set (categories self)) (resolve_categories self ic ips)")
      (auto simp: find_None_iff)
  have "(\<lambda>c. map_of (categories self) c = None) = (\<lambda>c. c \<notin> fst ` set (categories self))"
    by (simp add: map_of_eq_None_iff)
  with c have "find (\<lambda>c. map_of (categories self) c = None) (resolve_categories self ic ips) = Some c"
    by simp
  then have "collect_words (categories self) (resolve_categories self ic ips) mn' mx' []
             = Inl (invalid_category c)" for mn' mx'
    by (rule collect_words_unknown)
  then have "filter_words re self sw ew ic ips mn mx regex ex = Inl (invalid_category c)"
    unfolding filter_words_def using assms(1) by (cases bounds) simp
  with c show ?thesis unfolding invalid_category_def by blast
qed

theorem unknown_category_rejected_witness:
  "validate_lengths None None = Inr (None, None)
   \<and> filter_words literal_re (RandomWord no_default_words False example_kwargs)
        '''' '''' (Some [''verb'']) None None None None False
      = Inl (ValueError (CHR 0x27 # ''verb'' @ CHR 0x27 # '' is an invalid category''))"
proof -
  have h: "validate_lengths None None = Inr (None, None)"
    by (simp add: validate_lengths_def)
  have u: "\<not> set (resolve_categories (RandomWord no_default_words False example_kwargs)
                (Some [''verb'']) None)
            \<subseteq> fst ` set (categories (RandomWord no_default_words False example_kwargs))"
    by code_simp
  have r: "resolve_categories (RandomWord no_default_words False example_kwargs)
                (Some [''verb'']) None = [''verb'']"
    by (simp add: resolve_categories_def)
  have nk: "''verb'' \<notin> fst ` set (categories (RandomWord no_default_words False example_kwargs))"
    by code_simp
  from unknown_category_rejected[OF h u, of literal_re "''''" "''''" None False]
  obtain c where
    c: "find (\<lambda>c. c \<notin> fst ` set (categories (RandomWord no_default_words False example_kwargs)))
          (resolve_categories (RandomWord no_default_words False example_kwargs)
             (Some [''verb'']) None) = Some c"
    and f: "filter_words literal_re (RandomWord no_default_words False example_kwargs)
              '''' '''' (Some [''verb'']) None None None None False
            = Inl (ValueError (CHR 0x27 # c @ CHR 0x27 # '' is an invalid category''))"
    by blast
  have "c = ''verb''" using c unfolding r by (simp add: nk)
  with h f show ?thesis by simp
qed

text \<open>
  Claim C6 as stated fails when the length bounds are rejected: they are validated before
  the categories are looked up, so the call fails with the error of the bounds, which
  names no category.
\<close>

theorem length_error_before_unknown_category:
  "filter_words literal_re (RandomWord no_default_words False example_kwargs)
       '''' '''' (Some [''verb'']) None (Some 5) (Some 3) None False
     = Inl (ValueError ''word_min_length cannot be greater than word_max_length'')"
  by code_simp



section \<open>Sampling from the filtered pool\<close>

lemma randbelow_less: "0 < n \<Longrightarrow> fst (randbelow g n) < n"
  by (simp add: randbelow_def)

lemma shuffle_loop_mset:
  "k < length x \<Longrightarrow> mset (fst (shuffle_loop g k x)) = mset x"
proof (induction k arbitrary: g x)
  case 0
  then show ?case by simp
next
  case (Suc k)
  obtain j g' where r: "randbelow g (Suc k + 1) = (j, g')" by (cases "randbelow g (Suc k + 1)")
  have "j < Suc k + 1" using randbelow_less[of "Suc k + 1" g] r by simp
  then have j: "j < length x" using Suc.prems by simp
  define x' where "x' = x[Suc k := x ! j, j := x ! Suc k]"
  have len: "length x' = length x" by (simp add: x'_def)
  have "mset x' = mset x"
    unfolding x'_def using Suc.prems j by (simp add: mset_swap)
  moreover have "mset (fst (shuffle_loop g' k x')) = mset x'"
    using Suc.IH[of x' g'] Suc.prems len by simp
  moreover have "shuffle_loop g (Suc k) x = shuffle_loop g' k x'"
    using r by (simp add: x'_def Let_def)
  ultimately show ?case by simp
qed

lemma shuffle_mset: "mset (fst (shuffle g x)) = mset x"
proof (cases x)
  case Nil
  then show ?thesis by (simp add: shuffle_def)
next
  case (Cons a as)
  then have "length x - 1 < length x" by simp
  then show ?thesis unfolding shuffle_def by (rule shuffle_loop_mset)
qed

lemma choice_ok:
  assumes "seq \<noteq> []"
  shows "\<exists>x g'. choice g seq = Inr (x, g') \<and> x \<in> set seq"
proof -
  obtain i g' where r: "randbelow g (length seq) = (i, g')" by (cases "randbelow g (length seq)")
  have "i < length seq" using randbelow_less[of "length seq" g] r assms by simp
  then have "seq ! i \<in> set seq" by simp
  moreover have "choice g seq = Inr (seq ! i, g')" using assms r by (simp add: choice_def)
  ultimately show ?thesis by blast
qed

lemma draw_words_ok:
  "distinct choose_from \<Longrightarrow> n \<le> length choose_from \<Longrightarrow>
   \<exists>ws. draw_words g n choose_from acc = Inr (acc @ ws) \<and> length ws = n \<and> distinct ws
        \<and> set ws \<subseteq> set choose_from
        \<and> (n = length choose_from \<longrightarrow> mset ws = mset choose_from)"
proof (induction n arbitrary: g choose_from acc)
  case 0
  then show ?case by simp
next
  case (Suc n)
  then have ne: "choose_from \<noteq> []" by auto
  obtain x g' where c: "choice g choose_from = Inr (x, g')" and x: "x \<in> set choose_from"
    using choice_ok[OF ne] by blast
  let ?rest = "remove1 x choose_from"
  have d: "distinct ?rest" using Suc.prems(1) by simp
  have l: "length ?rest = length choose_from - 1" using x by (simp add: length_remove1)
  then have n: "n \<le> length ?rest" using Suc.prems(2) by simp
  obtain ws where ws: "draw_words g' n ?rest (acc @ [x]) = Inr ((acc @ [x]) @ ws)"
      "length ws = n" "distinct ws" "set ws \<subseteq> set ?rest"
      "n = length ?rest \<longrightarrow> mset ws = mset ?rest"
    using Suc.IH[OF d n, of g' "acc @ [x]"] by blast
  have notin: "x \<notin> set ws" using ws(4) Suc.prems(1) by auto
  have sub: "set ?rest \<subseteq> set choose_from" by (rule set_remove1_subset)
  have "draw_words g (Suc n) choose_from acc = Inr (acc @ (x # ws))"
    using c ws(1) by simp
  moreover have "length (x # ws) = Suc n" using ws(2) by simp
  moreover have "distinct (x # ws)" using ws(3) notin by simp
  moreover have "set (x # ws) \<subseteq> set choose_from" using x ws(4) sub by auto
  moreover have "Suc n = length choose_from \<longrightarrow> mset (x # ws) = mset choose_from"
  proof
    assume "Suc n = length choose_from"
    then have "n = length ?rest" using l by simp
    then have "mset ws = mset ?rest" using ws(5) by simp
    then show "mset (x # ws) = mset choose_from" using x by simp
  qed
  ultimately show ?case by blast
qed

lemma filter_words_distinct:
  assumes "filter_words re self sw ew ic ips mn mx regex ex = Inr pool"
  shows "distinct pool"
proof -
  obtain mn' mx' where v: "validate_lengths mn mx = Inr (mn', mx')"
    using assms unfolding filter_words_def
    by (cases "validate_lengths mn mx") auto
  obtain W where c: "collect_words (categories self) (resolve_categories self ic ips) mn' mx' [] = Inr W"
    using assms unfolding filter_words_def v
    by (cases "collect_words (categories self) (resolve_categories self ic ips) mn' mx' []") auto
  have dW: "distinct W" using collect_words_result[OF c] by simp
  define words where "words =
     (case tries self of
        None \<Rightarrow> W
      | Some (t0, t1) \<Rightarrow>
          let words = (if sw \<noteq> [] then set_inter W (get_words_that_start_with t0 sw) else W)
          in (if ew \<noteq> []
              then set_inter words (map rev (get_words_that_start_with t1 (rev ew)))
              else words))"
  have dw: "distinct words"
    unfolding words_def using dW
    by (auto simp: set_inter_def Let_def split: option.splits)
  define ops where "ops =
     \<lparr> lo_regex = regex,
       lo_exclude_with_spaces = ex,
       lo_starts_with = (if tries self = None \<and> sw \<noteq> [] then Some sw else None),
       lo_ends_with = (if tries self = None \<and> ew \<noteq> [] then Some ew else None) \<rparr>"
  have "filter_words re self sw ew ic ips mn mx regex ex
        = (if lo_regex ops \<noteq> None \<or> lo_exclude_with_spaces ops
              \<or> lo_starts_with ops \<noteq> None \<or> lo_ends_with ops \<noteq> None
           then (case perform_long_operations re words ops of
                   Inl e \<Rightarrow> Inl e
                 | Inr remove_words \<Rightarrow> Inr (set_minus words remove_words))
           else Inr words)"
    unfolding filter_words_def
    by (simp only: v c sum.case prod.case Let_def words_def ops_def)
  with assms have "pool = words \<or> (\<exists>R. pool = set_minus words R)"
    by (auto split: if_splits sum.splits)
  then show ?thesis using dw by (auto simp: set_minus_def)
qed

text \<open>
  Claim C5, as amended. A call of \<open>random_words\<close> without
  \<open>return_less_if_necessary\<close> that asks for more words than the filtered pool holds fails
  with \<open>NoWordsToChoseFrom\<close>; the message gives the requested amount.
\<close>

theorem not_enough_words_raised:
  assumes "filter_words re self sw ew ic ips mn mx regex ex = Inr pool"
    and "int (length pool) < amount"
  shows "random_words re g self amount sw ew ic ips mn mx regex False ex
         = Inl (NoWordsToChoseFrom
                  (''There aren'' @ CHR 0x27 # ''t enough words to choose from. Cannot generate ''
                   @ str amount @ '' word(s)''))"
  using assms by (simp add: random_words_def not_enough_words_def)

theorem not_enough_words_raised_witness:
  "filter_words literal_re (RandomWord no_default_words False example_kwargs)
       ''a'' '''' (Some [''noun'']) None None None None False = Inr [''apple'', ''ant'']
   \<and> int (length [''apple'', ''ant'']) < 5
   \<and> random_words literal_re example_tape (RandomWord no_default_words False example_kwargs)
       5 ''a'' '''' (Some [''noun'']) None None None None False False
     = Inl (NoWordsToChoseFrom
              (''There aren'' @ CHR 0x27 # ''t enough words to choose from. Cannot generate 5 word(s)''))"
proof -
  have p: "filter_words literal_re (RandomWord no_default_words False example_kwargs)
       ''a'' '''' (Some [''noun'']) None None None None False = Inr [''apple'', ''ant'']"
    by code_simp
  have l: "int (length [''apple'', ''ant'']) < 5" by simp
  have s: "str 5 = ''5''" by code_simp
  show ?thesis
    using p l not_enough_words_raised[OF p l, of example_tape] by (simp add: s)
qed

text \<open>
  Claim C5 as stated fails on the available count: the error does not identify it. Asking
  for 5 words from a pool of 2 and from a pool of 1 raises the same error with the same
  message.
\<close>

theorem not_enough_words_names_only_the_amount:
  "filter_words literal_re (RandomWord no_default_words False example_kwargs)
       ''a'' '''' (Some [''noun'']) None None None None False = Inr [''apple'', ''ant'']
   \<and> filter_words literal_re (RandomWord no_default_words False example_kwargs)
       ''o'' '''' (Some [''noun'']) None None None None False = Inr [''orange'']
   \<and> random_words literal_re example_tape (RandomWord no_default_words False example_kwargs)
       5 ''a'' '''' (Some [''noun'']) None None None None False False
     = Inl (NoWordsToChoseFrom
              (''There aren'' @ CHR 0x27 # ''t enough words to choose from. Cannot generate 5 word(s)''))
   \<and> random_words literal_re example_tape (RandomWord no_default_words False example_kwargs)
       5 ''o'' '''' (Some [''noun'']) None None None None False False
     = Inl (NoWordsToChoseFrom
              (''There aren'' @ CHR 0x27 # ''t enough words to choose from. Cannot generate 5 word(s)''))"
  by code_simp

text \<open>
  Claim C8. A call of \<open>random_words\<close> without \<open>return_less_if_necessary\<close> whose
  amount does not exceed the size of the filtered pool returns (and never raises from
  \<open>random.choice\<close>) as many words as asked, pairwise distinct, each a member of the
  pool; when the amount equals the size of the pool the result is a permutation of the
  pool.
\<close>

theorem random_words_distinct_members:
  assumes "filter_words re self sw ew ic ips mn mx regex ex = Inr pool"
    and "amount \<le> int (length pool)"
  shows "\<exists>ws. random_words re g self amount sw ew ic ips mn mx regex False ex = Inr ws
           \<and> length ws = nat amount \<and> distinct ws \<and> set ws \<subseteq> set pool
           \<and> (amount = int (length pool) \<longrightarrow> mset ws = mset pool)"
proof -
  have d: "distinct pool" using assms(1) by (rule filter_words_distinct)
  have n: "nat amount \<le> length pool" using assms(2) by simp
  obtain ws where ws: "draw_words g (nat amount) pool [] = Inr ([] @ ws)"
      "length ws = nat amount" "distinct ws" "set ws \<subseteq> set pool"
      "nat amount = length pool \<longrightarrow> mset ws = mset pool"
    using draw_words_ok[OF d n, of g "[]"] by blast
  have "random_words re g self amount sw ew ic ips mn mx regex False ex = Inr ws"
    using assms ws(1) by (simp add: random_words_def)
  moreover have "amount = int (length pool) \<longrightarrow> mset ws = mset pool"
    using ws(5) by auto
  ultimately show ?thesis using ws(2,3,4) by blast
qed

theorem random_words_distinct_members_witness:
  "filter_words literal_re (RandomWord no_default_words False example_kwargs)
       '''' '''' None None None None None False
     = Inr [''angry'', ''red'', ''orange'', ''apple'', ''ant'']
   \<and> (5::int) \<le> int (length [''angry'', ''red'', ''orange'', ''apple'', ''ant''])
   \<and> random_words literal_re example_tape (RandomWord no_default_words False example_kwargs)
          5 '''' '''' None None None None None False False
       = Inr [''apple'', ''orange'', ''ant'', ''angry'', ''red'']
   \<and> distinct [''apple'', ''orange'', ''ant'', ''angry'', ''red'']
   \<and> mset [''apple'', ''orange'', ''ant'', ''angry'', ''red'']
       = mset [''angry'', ''red'', ''orange'', ''apple'', ''ant'']"
proof -
  have p: "filter_words literal_re (RandomWord no_default_words False example_kwargs)
       '''' '''' None None None None None False
     = Inr [''angry'', ''red'', ''orange'', ''apple'', ''ant'']"
    by code_simp
  have l: "(5::int) \<le> int (length [''angry'', ''red'', ''orange'', ''apple'', ''ant''])" by simp
  have e: "random_words literal_re example_tape (RandomWord no_default_words False example_kwargs)
          5 '''' '''' None None None None None False False
       = Inr [''apple'', ''orange'', ''ant'', ''angry'', ''red'']"
    by code_simp
  show ?thesis
    using p l e random_words_distinct_members[OF p l, of example_tape] by simp
qed

text \<open>
  Claim C9. With \<open>return_less_if_necessary\<close> set, \<open>random_words\<close> returns a permutation
  of the whole filtered pool whatever the amount, also when the pool holds more words than
  were asked for.
\<close>

theorem return_less_returns_whole_pool:
  assumes "filter_words re self sw ew ic ips mn mx regex ex = Inr pool"
  shows "\<exists>ws. random_words re g self amount sw ew ic ips mn mx regex True ex = Inr ws
           \<and> mset ws = mset pool"
  using assms by (simp add: random_words_def shuffle_mset)

theorem return_less_returns_whole_pool_witness:
  "filter_words literal_re (RandomWord no_default_words False example_kwargs)
       '''' '''' None None None None None False
     = Inr [''angry'', ''red'', ''orange'', ''apple'', ''ant'']
   \<and> random_words literal_re example_tape (RandomWord no_default_words False example_kwargs)
          1 '''' '''' None None None None None True False
       = Inr [''red'', ''angry'', ''ant'', ''orange'', ''apple'']
   \<and> mset [''red'', ''angry'', ''ant'', ''orange'', ''apple'']
       = mset [''angry'', ''red'', ''orange'', ''apple'', ''ant'']"
proof -
  have p: "filter_words literal_re (RandomWord no_default_words False example_kwargs)
       '''' '''' None None None None None False
     = Inr [''angry'', ''red'', ''orange'', ''apple'', ''ant'']"
    by code_simp
  have e: "random_words literal_re example_tape (RandomWord no_default_words False example_kwargs)
          1 '''' '''' None None None None None True False
       = Inr [''red'', ''angry'', ''ant'', ''orange'', ''apple'']"
    by code_simp
  show ?thesis
    using p e return_less_returns_whole_pool[OF p, of example_tape 1] by simp
qed

end
